theory Spec2Isabelle
  imports Main
begin

section \<open>Data model (stateMachine.h)\<close>

text \<open>
  The state graph is static memory that the engine only reads. A \<open>struct state *\<close> is
  modelled as \<open>sid option\<close>: \<open>None\<close> is the null pointer, \<open>Some a\<close> the state stored at
  address \<open>a\<close>. The graph itself is a total function from addresses to states, so every
  non-null state pointer refers to a state. The \<open>void *\<close> members (event payload, guard
  condition, state data) are never inspected by the engine; they are opaque values.
  Callbacks are function pointers; the action callbacks are identified by a name, and
  every call the engine makes is appended to a trace. Guards are boolean functions of
  the condition and the event (they must not have side effects). Callbacks are taken
  not to write to the machine or to the graph.
\<close>

type_synonym sid = nat
type_synonym voidptr = nat
type_synonym fnptr = nat

text \<open>\<open>struct event\<close>; the members \<open>type\<close> and \<open>data\<close> carry the prefix \<open>ev_\<close>
  (the state has a member \<open>data\<close> as well).\<close>

record event =
  ev_type :: int
  ev_data :: voidptr

text \<open>\<open>struct transition\<close>\<close>

record transition =
  eventType :: int
  condition :: voidptr
  guard :: "(voidptr \<Rightarrow> event \<Rightarrow> bool) option"
  action :: "fnptr option"
  nextState :: "sid option"

text \<open>\<open>struct state\<close>. The array \<open>transitions\<close> with its length \<open>numTransitions\<close>
  is a list; \<open>numTransitions\<close> is its length.\<close>

record state =
  parentState :: "sid option"
  entryState :: "sid option"
  transitions :: "transition list"
  data :: voidptr
  entryAction :: "fnptr option"
  exitAction :: "fnptr option"

definition numTransitions :: "state \<Rightarrow> nat" where
  "numTransitions st = length (transitions st)"

type_synonym graph = "sid \<Rightarrow> state"

text \<open>\<open>struct stateMachine\<close>\<close>

record stateMachine =
  currentState :: "sid option"
  previousState :: "sid option"
  errorState :: "sid option"

text \<open>\<open>enum stateM_handleEventRetVals\<close>\<close>

datatype retval =
  stateM_errArg
  | stateM_errorStateReached
  | stateM_stateChanged
  | stateM_stateLoopSelf
  | stateM_noStateChange
  | stateM_finalStateReached

text \<open>The calls of user callbacks, with their arguments:
  \<open>exitAction(data, event)\<close>, \<open>action(oldData, event, newData)\<close> and
  \<open>entryAction(data, event)\<close>.\<close>

datatype call =
  ExitCall fnptr voidptr event
  | ActionCall fnptr voidptr event voidptr
  | EntryCall fnptr voidptr event

fun isExitCall :: "call \<Rightarrow> bool" where
  "isExitCall (ExitCall f d e) = True"
| "isExitCall c = False"

fun isActionCall :: "call \<Rightarrow> bool" where
  "isActionCall (ActionCall f d e d') = True"
| "isActionCall c = False"

fun isEntryCall :: "call \<Rightarrow> bool" where
  "isEntryCall (EntryCall f d e) = True"
| "isEntryCall c = False"

text \<open>Dereferencing a null pointer has no defined result.\<close>

datatype fault = NullDereference

section \<open>The engine (stateMachine.c)\<close>

text \<open>\<open>stateM_init\<close>: writes the three members when the machine is present and calls
  nothing. The result is the machine behind the pointer after the call and the trace
  of callback calls.\<close>

definition stateM_init ::
  "stateMachine option \<Rightarrow> sid option \<Rightarrow> sid option \<Rightarrow> stateMachine option \<times> call list" where
  "stateM_init fsm initialState errState =
     (case fsm of
        None \<Rightarrow> (None, [])
      | Some m \<Rightarrow>
          (Some (m\<lparr>currentState := initialState, previousState := None,
                   errorState := errState\<rparr>), []))"

text \<open>\<open>goToErrorState\<close>\<close>

definition goToErrorState :: "graph \<Rightarrow> stateMachine \<Rightarrow> event \<Rightarrow> stateMachine \<times> call list" where
  "goToErrorState g fsm ev =
     (let fsm' = fsm\<lparr>previousState := currentState fsm, currentState := errorState fsm\<rparr>
      in (fsm',
          case currentState fsm' of
            None \<Rightarrow> []
          | Some e \<Rightarrow>
              (case entryAction (g e) of
                 None \<Rightarrow> []
               | Some f \<Rightarrow> [EntryCall f (data (g e)) ev])))"

text \<open>The \<open>for\<close> loop of \<open>getTransition\<close>, from index \<open>i\<close> on.\<close>

function getTransitionFrom :: "state \<Rightarrow> event \<Rightarrow> nat \<Rightarrow> transition option" where
  "getTransitionFrom st ev i =
     (if i < numTransitions st then
        (let t = transitions st ! i in
         if eventType t = ev_type ev then
           (case guard t of
              None \<Rightarrow> Some t
            | Some gf \<Rightarrow> if gf (condition t) ev then Some t else getTransitionFrom st ev (i + 1))
         else getTransitionFrom st ev (i + 1))
      else None)"
  by pat_completeness auto
termination
  by (relation "measure (\<lambda>(st, ev, i). numTransitions st - i)") auto

declare getTransitionFrom.simps [simp del]

text \<open>\<open>getTransition\<close>; the machine argument is not used by the source either.\<close>

definition getTransition :: "stateMachine \<Rightarrow> state \<Rightarrow> event \<Rightarrow> transition option" where
  "getTransition fsm st ev = getTransitionFrom st ev 0"

text \<open>The inner loop \<open>while ( nextState->entryState ) nextState = nextState->entryState;\<close>.
  It does not end on a cyclic chain of entry states: \<open>None\<close> is non-termination.\<close>

partial_function (option) enterEntryStates :: "graph \<Rightarrow> sid \<Rightarrow> sid option" where
  [code]: "enterEntryStates g s =
     (case entryState (g s) of
        None \<Rightarrow> Some s
      | Some e \<Rightarrow> enterEntryStates g e)"

text \<open>The body of the \<open>do\<close> loop after the landing state \<open>l\<close> has been found: exit
  action, transition action, entry action, the two assignments and the classification
  of the outcome. \<open>cur\<close> is \<open>fsm->currentState\<close>, which is not null here.\<close>

definition changeState ::
  "graph \<Rightarrow> stateMachine \<Rightarrow> event \<Rightarrow> sid \<Rightarrow> transition \<Rightarrow> sid \<Rightarrow>
   retval \<times> stateMachine \<times> call list" where
  "changeState g fsm ev cur t l =
     (let exitCalls =
            (if Some l \<noteq> currentState fsm then
               (case exitAction (g cur) of
                  None \<Rightarrow> []
                | Some f \<Rightarrow> [ExitCall f (data (g cur)) ev])
             else []);
          actionCalls =
            (case action t of
               None \<Rightarrow> []
             | Some f \<Rightarrow> [ActionCall f (data (g cur)) ev (data (g l))]);
          entryCalls =
            (if Some l \<noteq> currentState fsm then
               (case entryAction (g l) of
                  None \<Rightarrow> []
                | Some f \<Rightarrow> [EntryCall f (data (g l)) ev])
             else []);
          fsm' = fsm\<lparr>previousState := currentState fsm, currentState := Some l\<rparr>;
          rc =
            (if currentState fsm' = previousState fsm' then stateM_stateLoopSelf
             else if currentState fsm' = errorState fsm' then stateM_errorStateReached
             else if numTransitions (g l) = 0 then stateM_finalStateReached
             else stateM_stateChanged)
      in (rc, fsm', exitCalls @ actionCalls @ entryCalls))"

text \<open>The body of the \<open>do\<close> loop once \<open>getTransition\<close> has returned the
  transition \<open>t\<close>: a transition without next state leads to the error state;
  otherwise the entry states of the next state are entered and the state is changed.\<close>

definition takeTransition ::
  "graph \<Rightarrow> stateMachine \<Rightarrow> event \<Rightarrow> sid \<Rightarrow> transition \<Rightarrow>
   (retval \<times> stateMachine \<times> call list) option" where
  "takeTransition g fsm ev cur t =
     (case nextState t of
        None \<Rightarrow>
          (case goToErrorState g fsm ev of
             (fsm', calls) \<Rightarrow> Some (stateM_errorStateReached, fsm', calls))
      | Some n \<Rightarrow>
          (case enterEntryStates g n of
             None \<Rightarrow> None
           | Some l \<Rightarrow> Some (changeState g fsm ev cur t l)))"

text \<open>The \<open>do \<dots> while ( nextState )\<close> loop of \<open>stateM_handleEvent\<close>, with
  \<open>s\<close> the variable \<open>nextState\<close> at the head of the loop. It does not end on a
  cyclic chain of parents none of which has a matching transition.\<close>

partial_function (option) handleEventLoop ::
  "graph \<Rightarrow> stateMachine \<Rightarrow> event \<Rightarrow> sid \<Rightarrow> sid \<Rightarrow> (retval \<times> stateMachine \<times> call list) option"
  where
  [code]: "handleEventLoop g fsm ev cur s =
     (case getTransition fsm (g s) ev of
        None \<Rightarrow>
          (case parentState (g s) of
             None \<Rightarrow> Some (stateM_noStateChange, fsm, [])
           | Some p \<Rightarrow> handleEventLoop g fsm ev cur p)
      | Some t \<Rightarrow> takeTransition g fsm ev cur t)"

text \<open>\<open>stateM_handleEvent\<close>. The result is \<open>None\<close> when the call does not return;
  otherwise the return value, the machine behind the pointer after the call and the
  trace of callback calls, in the order in which they were made.\<close>

definition stateM_handleEvent ::
  "graph \<Rightarrow> stateMachine option \<Rightarrow> event option \<Rightarrow>
   (retval \<times> stateMachine option \<times> call list) option" where
  "stateM_handleEvent g fsm event =
     (case (fsm, event) of
        (Some m, Some ev) \<Rightarrow>
          (case currentState m of
             None \<Rightarrow>
               (case goToErrorState g m ev of
                  (m', calls) \<Rightarrow> Some (stateM_errorStateReached, Some m', calls))
           | Some cur \<Rightarrow>
               if numTransitions (g cur) = 0 then Some (stateM_noStateChange, Some m, [])
               else
                 (case handleEventLoop g m ev cur cur of
                    None \<Rightarrow> None
                  | Some (rc, m', calls) \<Rightarrow> Some (rc, Some m', calls)))
      | _ \<Rightarrow> Some (stateM_errArg, fsm, []))"

text \<open>\<open>stateM_currentState\<close>, \<open>stateM_previousState\<close>\<close>

definition stateM_currentState :: "stateMachine option \<Rightarrow> sid option" where
  "stateM_currentState fsm = (case fsm of None \<Rightarrow> None | Some m \<Rightarrow> currentState m)"

definition stateM_previousState :: "stateMachine option \<Rightarrow> sid option" where
  "stateM_previousState fsm = (case fsm of None \<Rightarrow> None | Some m \<Rightarrow> previousState m)"

text \<open>\<open>stateM_stopped\<close>: \<open>stateMachine->currentState->numTransitions\<close> is read without
  a check of \<open>currentState\<close>.\<close>

definition stateM_stopped :: "graph \<Rightarrow> stateMachine option \<Rightarrow> fault + bool" where
  "stateM_stopped g fsm =
     (case fsm of
        None \<Rightarrow> Inr True
      | Some m \<Rightarrow>
          (case currentState m of
             None \<Rightarrow> Inl NullDereference
           | Some s \<Rightarrow> Inr (numTransitions (g s) = 0)))"

section \<open>Definitions that follow the specification\<close>

text \<open>Transition resolution as the specification words it: a candidate matches if
  its event-type discriminant equals the event's discriminant and no guard is attached
  or the guard evaluates true when called with the transition's condition value and
  the event.\<close>

definition matches :: "event \<Rightarrow> transition \<Rightarrow> bool" where
  "matches ev t =
     (eventType t = ev_type ev \<and>
      (case guard t of None \<Rightarrow> True | Some gf \<Rightarrow> gf (condition t) ev))"

text \<open>Event bubbling as the specification words it: starting at a state, attempt
  resolution; if there is no match and the state has a parent, retry at the parent,
  until a match is found (\<open>Some (Some t)\<close>) or the chain of ancestors is exhausted
  (\<open>Some None\<close>). \<open>None\<close> is a chain of ancestors that never ends.\<close>

partial_function (option) resolveBubbling ::
  "graph \<Rightarrow> stateMachine \<Rightarrow> event \<Rightarrow> sid \<Rightarrow> transition option option" where
  [code]: "resolveBubbling g fsm ev s =
     (case getTransition fsm (g s) ev of
        Some t \<Rightarrow> Some (Some t)
      | None \<Rightarrow>
          (case parentState (g s) of
             None \<Rightarrow> Some None
           | Some p \<Rightarrow> resolveBubbling g fsm ev p))"

text \<open>Following entry-state links: \<open>(a, b) \<in> entryLink g\<close> when state \<open>a\<close> declares
  the entry state \<open>b\<close>.\<close>

definition entryLink :: "graph \<Rightarrow> (sid \<times> sid) set" where
  "entryLink g = {(a, b). entryState (g a) = Some b}"

text \<open>The chain of ancestors: \<open>(a, b) \<in> parentLink g\<close> when \<open>b\<close> is the parent of
  state \<open>a\<close>.\<close>

definition parentLink :: "graph \<Rightarrow> (sid \<times> sid) set" where
  "parentLink g = {(a, b). parentState (g a) = Some b}"

text \<open>The caller's loop: the events of a list are handed to the machine one after the
  other (as \<open>main\<close> of the nested test does); the result collects the return values
  and the callback calls.\<close>

fun handleEvents ::
  "graph \<Rightarrow> stateMachine option \<Rightarrow> event list \<Rightarrow>
   (retval list \<times> stateMachine option \<times> call list) option" where
  "handleEvents g fsm [] = Some ([], fsm, [])"
| "handleEvents g fsm (ev # evs) =
     (case stateM_handleEvent g fsm (Some ev) of
        None \<Rightarrow> None
      | Some (rc, fsm', calls) \<Rightarrow>
          (case handleEvents g fsm' evs of
             None \<Rightarrow> None
           | Some (rcs, fsm'', calls') \<Rightarrow> Some (rc # rcs, fsm'', calls @ calls')))"

section \<open>The state graph of the nested test\<close>

text \<open>The states \<open>s1\<close> \<dots> \<open>s6\<close>, \<open>s9\<close>, \<open>s10\<close>, \<open>s11\<close> and \<open>sE\<close> of the
  repository's nested test, at the addresses 1 \<dots> 6, 9, 10, 11 and 0. The data of a
  state (its name in the test) is its number, \<open>0\<close> for \<open>"ERROR"\<close>. The callbacks
  \<open>entryAction\<close>, \<open>exitAction\<close> and \<open>transAction\<close> have the names 1, 2 and 3. The
  event payload is represented by its character, and \<open>guard\<close> compares the condition
  with it.\<close>

definition Event_dummy :: int where
  "Event_dummy = 0"

definition testGuard :: "voidptr \<Rightarrow> event \<Rightarrow> bool" where
  "testGuard c ev = (c = ev_data ev)"

definition guarded :: "char \<Rightarrow> sid \<Rightarrow> transition" where
  "guarded c n =
     \<lparr>eventType = Event_dummy, condition = of_char c, guard = Some testGuard,
      action = Some 3, nextState = Some n\<rparr>"

definition unguarded :: "sid \<Rightarrow> transition" where
  "unguarded n =
     \<lparr>eventType = Event_dummy, condition = 0, guard = None,
      action = Some 3, nextState = Some n\<rparr>"

definition testState ::
  "voidptr \<Rightarrow> sid option \<Rightarrow> sid option \<Rightarrow> transition list \<Rightarrow> state" where
  "testState d p e ts =
     \<lparr>parentState = p, entryState = e, transitions = ts, data = d,
      entryAction = Some 1, exitAction = Some 2\<rparr>"

definition s1 :: state where
  "s1 = testState 1 (Some 9) None [guarded CHR ''d'' 3]"

definition s2 :: state where
  "s2 = testState 2 None None [guarded CHR ''b'' 1]"

definition s3 :: state where
  "s3 = testState 3 (Some 10) None [guarded CHR ''e'' 11]"

definition s4 :: state where
  "s4 = testState 4 (Some 11) None [guarded CHR ''h'' 5, guarded CHR ''j'' 9]"

definition s5 :: state where
  "s5 = testState 5 (Some 11) None [unguarded 10]"

definition s6 :: state where
  "s6 = testState 6 None None []"

definition s9 :: state where
  "s9 = testState 9 None (Some 4) [guarded CHR ''a'' 3]"

definition s10 :: state where
  "s10 = testState 10 (Some 9) (Some 9) [guarded CHR ''f'' 2, guarded CHR ''i'' 6]"

definition s11 :: state where
  "s11 = testState 11 (Some 10) (Some 5) [guarded CHR ''g'' 2]"

definition sE :: state where
  "sE =
     \<lparr>parentState = None, entryState = None, transitions = [], data = 0,
      entryAction = Some 1, exitAction = None\<rparr>"

definition nestedTest :: graph where
  "nestedTest a =
     (if a = 1 then s1 else if a = 2 then s2 else if a = 3 then s3
      else if a = 4 then s4 else if a = 5 then s5 else if a = 6 then s6
      else if a = 9 then s9 else if a = 10 then s10 else if a = 11 then s11
      else sE)"

text \<open>The machine of the test in state \<open>a\<close>, and the event with payload \<open>c\<close>.\<close>

definition testMachine :: "sid \<Rightarrow> stateMachine" where
  "testMachine a = \<lparr>currentState = Some a, previousState = None, errorState = Some 0\<rparr>"

definition key :: "char \<Rightarrow> event" where
  "key c = \<lparr>ev_type = Event_dummy, ev_data = of_char c\<rparr>"

section \<open>A graph with a configuration defect\<close>

text \<open>A small graph for the error paths: the error state at address 0; the state
  \<open>idle\<close> at address 1 with a transition that declares no next state (event type 1),
  a transition to the error state (2) and a transition to the final state \<open>done\<close>
  (3); \<open>done\<close> at address 2, without transitions, a child of the group at address 3,
  which resets to \<open>idle\<close> on event type 4; and at address 4 a state with a transition
  to itself (event type 1).\<close>

definition plain :: "int \<Rightarrow> fnptr \<Rightarrow> sid option \<Rightarrow> transition" where
  "plain ty f n =
     \<lparr>eventType = ty, condition = 0, guard = None, action = Some f, nextState = n\<rparr>"

definition defectGraph :: graph where
  "defectGraph a =
     (if a = 1 then
        \<lparr>parentState = None, entryState = None,
         transitions = [plain 1 20 None, plain 2 21 (Some 0), plain 3 22 (Some 2)],
         data = 1, entryAction = Some 11, exitAction = Some 12\<rparr>
      else if a = 2 then
        \<lparr>parentState = Some 3, entryState = None, transitions = [],
         data = 2, entryAction = Some 13, exitAction = Some 14\<rparr>
      else if a = 3 then
        \<lparr>parentState = None, entryState = None, transitions = [plain 4 23 (Some 1)],
         data = 3, entryAction = None, exitAction = None\<rparr>
      else if a = 4 then
        \<lparr>parentState = None, entryState = None, transitions = [plain 1 24 (Some 4)],
         data = 4, entryAction = Some 15, exitAction = Some 16\<rparr>
      else
        \<lparr>parentState = None, entryState = None, transitions = [],
         data = 0, entryAction = Some 10, exitAction = None\<rparr>)"

definition machineAt :: "sid option \<Rightarrow> sid option \<Rightarrow> stateMachine" where
  "machineAt c e = \<lparr>currentState = c, previousState = None, errorState = e\<rparr>"

definition eventOf :: "int \<Rightarrow> event" where
  "eventOf ty = \<lparr>ev_type = ty, ev_data = 0\<rparr>"

section \<open>Transition resolution\<close>

lemma getTransitionFrom_step:
  "i < numTransitions st \<Longrightarrow>
   getTransitionFrom st ev i =
     (if matches ev (transitions st ! i) then Some (transitions st ! i)
      else getTransitionFrom st ev (i + 1))"
  by (subst getTransitionFrom.simps) (simp add: matches_def Let_def split: option.splits)

lemma getTransitionFrom_end:
  "\<not> i < numTransitions st \<Longrightarrow> getTransitionFrom st ev i = None"
  by (subst getTransitionFrom.simps) simp

lemma getTransitionFrom_find:
  "getTransitionFrom st ev i = List.find (matches ev) (drop i (transitions st))"
proof (induction "numTransitions st - i" arbitrary: i)
  case 0
  then show ?case
    by (simp add: getTransitionFrom_end) (simp add: numTransitions_def)
next
  case (Suc k)
  then have lt: "i < numTransitions st" and k: "k = numTransitions st - (i + 1)"
    by simp_all
  have d: "drop i (transitions st) = transitions st ! i # drop (i + 1) (transitions st)"
    using lt by (simp add: numTransitions_def Cons_nth_drop_Suc)
  show ?case
    using Suc.hyps(1) [OF k] by (simp add: getTransitionFrom_step [OF lt] d)
qed

lemma getTransition_find:
  "getTransition fsm st ev = List.find (matches ev) (transitions st)"
  by (simp add: getTransition_def getTransitionFrom_find)

section \<open>Event dispatch\<close>

lemma handleEventLoop_resolve:
  assumes "resolveBubbling g fsm ev s = Some r"
  shows "handleEventLoop g fsm ev cur s =
     (case r of
        None \<Rightarrow> Some (stateM_noStateChange, fsm, [])
      | Some t \<Rightarrow> takeTransition g fsm ev cur t)"
  using assms
proof (induct arbitrary: cur rule: resolveBubbling.raw_induct [rotated 1, consumes 1])
  case (1 resolve g fsm ev s r)
  then show ?case
    by (subst handleEventLoop.simps) (auto split: option.splits)
qed

lemma handleEvent_present:
  "currentState m = Some cur \<Longrightarrow> 0 < numTransitions (g cur) \<Longrightarrow>
   stateM_handleEvent g (Some m) (Some ev) =
     (case handleEventLoop g m ev cur cur of
        None \<Rightarrow> None
      | Some (rc, m', calls) \<Rightarrow> Some (rc, Some m', calls))"
  by (simp add: stateM_handleEvent_def)

lemma handleEvent_final:
  "currentState m = Some cur \<Longrightarrow> numTransitions (g cur) = 0 \<Longrightarrow>
   stateM_handleEvent g (Some m) (Some ev) = Some (stateM_noStateChange, Some m, [])"
  by (simp add: stateM_handleEvent_def)

lemma handleEvent_no_match:
  assumes "currentState m = Some cur" and "resolveBubbling g m ev cur = Some None"
  shows "stateM_handleEvent g (Some m) (Some ev) = Some (stateM_noStateChange, Some m, [])"
proof (cases "numTransitions (g cur) = 0")
  case True
  then show ?thesis using assms(1) by (rule handleEvent_final [rotated])
next
  case False
  then show ?thesis
    using assms by (simp add: handleEvent_present handleEventLoop_resolve)
qed

lemma handleEvent_match:
  assumes "currentState m = Some cur" and "0 < numTransitions (g cur)"
    and "resolveBubbling g m ev cur = Some (Some t)"
  shows "stateM_handleEvent g (Some m) (Some ev) =
     (case takeTransition g m ev cur t of
        None \<Rightarrow> None
      | Some (rc, m', calls) \<Rightarrow> Some (rc, Some m', calls))"
  using assms by (simp add: handleEvent_present handleEventLoop_resolve)

lemma enterEntryStates_sound:
  assumes "enterEntryStates g n = Some l"
  shows "(n, l) \<in> (entryLink g)\<^sup>* \<and> entryState (g l) = None"
  using assms
proof (induct rule: enterEntryStates.raw_induct [rotated 1, consumes 1])
  case (1 enter g s l)
  show ?case
  proof (cases "entryState (g s)")
    case None
    with 1(2) show ?thesis by simp
  next
    case (Some e)
    with 1(2) have "enter g e = Some l" by simp
    then have "(e, l) \<in> (entryLink g)\<^sup>* \<and> entryState (g l) = None" by (rule 1(1))
    moreover have "(s, e) \<in> entryLink g" using Some by (simp add: entryLink_def)
    ultimately show ?thesis by (auto intro: converse_rtrancl_into_rtrancl)
  qed
qed

lemma enterEntryStates_complete:
  assumes "(n, l) \<in> (entryLink g)\<^sup>*" and "entryState (g l) = None"
  shows "enterEntryStates g n = Some l"
  using assms
proof (induction rule: converse_rtrancl_induct)
  case base
  then show ?case by (subst enterEntryStates.simps) simp
next
  case (step a b)
  then show ?case by (subst enterEntryStates.simps) (simp add: entryLink_def)
qed

lemma takeTransition_land:
  "nextState t = Some n \<Longrightarrow> enterEntryStates g n = Some l \<Longrightarrow>
   takeTransition g m ev cur t = Some (changeState g m ev cur t l)"
  by (simp add: takeTransition_def)

lemma handleEvent_land:
  assumes "currentState m = Some cur" and "0 < numTransitions (g cur)"
    and "resolveBubbling g m ev cur = Some (Some t)"
    and "nextState t = Some n" and "enterEntryStates g n = Some l"
  shows "stateM_handleEvent g (Some m) (Some ev) =
     (case changeState g m ev cur t l of (rc, m', calls) \<Rightarrow> Some (rc, Some m', calls))"
  using assms by (simp add: handleEvent_match takeTransition_land)

lemma goToErrorState_calls:
  "goToErrorState g m ev = (m', calls) \<Longrightarrow> c \<in> set calls \<Longrightarrow> isEntryCall c"
  by (auto simp: goToErrorState_def Let_def split: option.splits)

lemma takeTransition_actions:
  assumes "takeTransition g m ev cur t = Some (rc, m', calls)"
    and "ActionCall f d e d' \<in> set calls"
  shows "action t = Some f"
proof (cases "nextState t")
  case None
  with assms(1) obtain m'' where "goToErrorState g m ev = (m'', calls)"
    by (auto simp: takeTransition_def split: prod.splits)
  from goToErrorState_calls [OF this assms(2)] show ?thesis by simp
next
  case (Some n)
  with assms(1) obtain l where "changeState g m ev cur t l = (rc, m', calls)"
    by (auto simp: takeTransition_def split: option.splits)
  with assms(2) show ?thesis
    by (auto simp: changeState_def Let_def split: option.splits if_splits)
qed

lemma handleEventLoop_actions:
  assumes "handleEventLoop g m ev cur s = Some res"
  shows "\<forall>f d e d'. ActionCall f d e d' \<in> set (snd (snd res)) \<longrightarrow>
           (\<exists>a t. getTransition m (g a) ev = Some t \<and> action t = Some f)"
  using assms
proof (induct rule: handleEventLoop.raw_induct [rotated 1, consumes 1])
  case (1 loop g m ev cur s res)
  show ?case
  proof (cases "getTransition m (g s) ev")
    case None
    note nomatch = this
    show ?thesis
    proof (cases "parentState (g s)")
      case None
      with nomatch 1(2) show ?thesis by auto
    next
      case (Some p)
      with nomatch 1(2) have "loop g m ev cur p = Some res" by simp
      then show ?thesis by (rule 1(1))
    qed
  next
    case (Some t)
    with 1(2) have tt: "takeTransition g m ev cur t = Some res" by simp
    obtain rc m' calls where res: "res = (rc, m', calls)" by (cases res)
    show ?thesis
      using takeTransition_actions [OF tt [unfolded res]] Some by (simp add: res) blast
  qed
qed

lemma handleEvent_actions:
  assumes "stateM_handleEvent g (Some m) (Some ev) = Some (rc, m', calls)"
    and "ActionCall f d e d' \<in> set calls"
  shows "\<exists>a t. getTransition m (g a) ev = Some t \<and> action t = Some f"
proof (cases "currentState m")
  case None
  with assms(1) obtain m'' where "goToErrorState g m ev = (m'', calls)"
    by (auto simp: stateM_handleEvent_def split: prod.splits)
  from goToErrorState_calls [OF this assms(2)] show ?thesis by simp
next
  case (Some cur)
  show ?thesis
  proof (cases "numTransitions (g cur) = 0")
    case True
    with Some assms show ?thesis by (simp add: stateM_handleEvent_def)
  next
    case False
    with Some assms(1) obtain m'' where "handleEventLoop g m ev cur cur = Some (rc, m'', calls)"
      by (auto simp: stateM_handleEvent_def split: option.splits)
    from handleEventLoop_actions [OF this] assms(2) show ?thesis by simp blast
  qed
qed

lemma handleEventLoop_taken:
  assumes "handleEventLoop g m ev cur s = Some res"
  shows "(res = (stateM_noStateChange, m, []) \<and> resolveBubbling g m ev s = Some None)
     \<or> (\<exists>a t. (s, a) \<in> (parentLink g)\<^sup>* \<and> getTransition m (g a) ev = Some t \<and>
           resolveBubbling g m ev s = Some (Some t) \<and>
           takeTransition g m ev cur t = Some res)"
  using assms
proof (induct rule: handleEventLoop.raw_induct [rotated 1, consumes 1])
  case (1 loop g m ev cur s res)
  show ?case
  proof (cases "getTransition m (g s) ev")
    case (Some t)
    with 1(2) have "takeTransition g m ev cur t = Some res" by simp
    moreover have "resolveBubbling g m ev s = Some (Some t)"
      using Some by (subst resolveBubbling.simps) simp
    ultimately show ?thesis using Some by blast
  next
    case None
    note nomatch = this
    show ?thesis
    proof (cases "parentState (g s)")
      case None
      with nomatch 1(2) have "res = (stateM_noStateChange, m, [])" by simp
      moreover have "resolveBubbling g m ev s = Some None"
        using nomatch None by (subst resolveBubbling.simps) simp
      ultimately show ?thesis by blast
    next
      case (Some p)
      with nomatch 1(2) have "loop g m ev cur p = Some res" by simp
      from 1(1) [OF this]
      have ih: "(res = (stateM_noStateChange, m, []) \<and> resolveBubbling g m ev p = Some None)
         \<or> (\<exists>a t. (p, a) \<in> (parentLink g)\<^sup>* \<and> getTransition m (g a) ev = Some t \<and>
               resolveBubbling g m ev p = Some (Some t) \<and>
               takeTransition g m ev cur t = Some res)" .
      have up: "resolveBubbling g m ev s = resolveBubbling g m ev p"
        using nomatch Some by (subst resolveBubbling.simps) simp
      have link: "(s, p) \<in> parentLink g"
        using Some by (simp add: parentLink_def)
      show ?thesis
        using ih link unfolding up
        by (blast intro: converse_rtrancl_into_rtrancl)
    qed
  qed
qed

lemma handleEvent_taken:
  assumes "stateM_handleEvent g (Some m) (Some ev) = Some (rc, m', calls)"
  shows "(currentState m = None \<and> rc = stateM_errorStateReached \<and>
          (\<exists>m2. goToErrorState g m ev = (m2, calls) \<and> m' = Some m2))
     \<or> (rc = stateM_noStateChange \<and> m' = Some m \<and> calls = [])
     \<or> (\<exists>cur a t m2. currentState m = Some cur \<and> (cur, a) \<in> (parentLink g)\<^sup>* \<and>
           getTransition m (g a) ev = Some t \<and>
           resolveBubbling g m ev cur = Some (Some t) \<and>
           takeTransition g m ev cur t = Some (rc, m2, calls) \<and> m' = Some m2)"
proof (cases "currentState m")
  case None
  with assms show ?thesis
    by (auto simp: stateM_handleEvent_def split: prod.splits)
next
  case (Some cur)
  show ?thesis
  proof (cases "numTransitions (g cur) = 0")
    case True
    with Some assms show ?thesis by (simp add: stateM_handleEvent_def)
  next
    case False
    with Some assms obtain m2 where loop: "handleEventLoop g m ev cur cur = Some (rc, m2, calls)"
      and m': "m' = Some m2"
      by (auto simp: stateM_handleEvent_def split: option.splits)
    from handleEventLoop_taken [OF loop] show ?thesis
      using Some m' by blast
  qed
qed

lemma takeTransition_action_args:
  assumes "takeTransition g m ev cur t = Some (rc, m', calls)"
    and "ActionCall f d e d' \<in> set calls"
  shows "action t = Some f \<and> d = data (g cur) \<and> e = ev"
proof (cases "nextState t")
  case None
  with assms(1) obtain m'' where "goToErrorState g m ev = (m'', calls)"
    by (auto simp: takeTransition_def split: prod.splits)
  from goToErrorState_calls [OF this assms(2)] show ?thesis by simp
next
  case (Some n)
  with assms(1) obtain l where "changeState g m ev cur t l = (rc, m', calls)"
    by (auto simp: takeTransition_def split: option.splits)
  with assms(2) show ?thesis
    by (auto simp: changeState_def Let_def split: option.splits if_splits)
qed

lemma handleEvents_halted:
  assumes "currentState m = Some l" and "numTransitions (g l) = 0"
  shows "handleEvents g (Some m) evs =
     Some (replicate (length evs) stateM_noStateChange, Some m, [])"
  using assms by (induction evs) (simp_all add: handleEvent_final)

section \<open>Termination on tree-shaped graphs\<close>

text \<open>
  The two loops end when the parent links and the entry-state links of the graph
  are well-founded, as they are when the states form a tree: then bubbling has a
  result, the entry states are entered in finitely many steps, and
  \<open>stateM_handleEvent\<close> returns.
\<close>

lemma resolveBubbling_terminates:
  fixes depth :: "sid \<Rightarrow> nat"
  assumes "\<And>s p. parentState (g s) = Some p \<Longrightarrow> depth p < depth s"
  shows "\<exists>r. resolveBubbling g m ev s = Some r"
proof (induction "depth s" arbitrary: s rule: less_induct)
  case less
  show ?case
  proof (cases "getTransition m (g s) ev")
    case (Some t)
    then show ?thesis by (subst resolveBubbling.simps) simp
  next
    case None
    note nomatch = this
    show ?thesis
    proof (cases "parentState (g s)")
      case None
      with nomatch show ?thesis by (subst resolveBubbling.simps) simp
    next
      case (Some p)
      from less [OF assms [OF Some]] obtain r where "resolveBubbling g m ev p = Some r" ..
      with nomatch Some show ?thesis by (subst resolveBubbling.simps) simp
    qed
  qed
qed

lemma enterEntryStates_terminates:
  fixes depth :: "sid \<Rightarrow> nat"
  assumes "\<And>s e. entryState (g s) = Some e \<Longrightarrow> depth e < depth s"
  shows "\<exists>l. enterEntryStates g n = Some l"
proof (induction "depth n" arbitrary: n rule: less_induct)
  case less
  show ?case
  proof (cases "entryState (g n)")
    case None
    then show ?thesis by (subst enterEntryStates.simps) simp
  next
    case (Some e)
    from less [OF assms [OF Some]] obtain l where "enterEntryStates g e = Some l" ..
    with Some show ?thesis by (subst enterEntryStates.simps) simp
  qed
qed

lemma handleEvent_returns:
  fixes up :: "sid \<Rightarrow> nat" and down :: "sid \<Rightarrow> nat"
  assumes "\<And>s p. parentState (g s) = Some p \<Longrightarrow> up p < up s"
    and "\<And>s e. entryState (g s) = Some e \<Longrightarrow> down e < down s"
  shows "\<exists>res. stateM_handleEvent g fsm event = Some res"
proof (cases "\<exists>m ev cur. fsm = Some m \<and> event = Some ev \<and> currentState m = Some cur \<and>
    0 < numTransitions (g cur)")
  case False
  then show ?thesis
    by (auto simp: stateM_handleEvent_def split: option.splits prod.splits)
next
  case True
  then obtain m ev cur where v: "fsm = Some m" "event = Some ev"
    and c: "currentState m = Some cur" and n: "0 < numTransitions (g cur)"
    by blast
  from resolveBubbling_terminates [of g up m ev cur] assms(1)
  obtain r where r: "resolveBubbling g m ev cur = Some r" by blast
  show ?thesis
  proof (cases r)
    case None
    with handleEvent_no_match [OF c] r show ?thesis by (simp add: v)
  next
    case (Some t)
    have "\<exists>res. takeTransition g m ev cur t = Some res"
    proof (cases "nextState t")
      case None
      then show ?thesis by (simp add: takeTransition_def split: prod.splits)
    next
      case (Some x)
      from enterEntryStates_terminates [of g down x] assms(2)
      obtain l where "enterEntryStates g x = Some l" by blast
      from takeTransition_land [OF Some this] show ?thesis by blast
    qed
    then show ?thesis
      using handleEvent_match [OF c n r [unfolded Some]] by (auto simp: v)
  qed
qed

section \<open>Evaluation of the example graphs\<close>

lemmas test_defs =
  nestedTest_def s1_def s2_def s3_def s4_def s5_def s6_def s9_def s10_def s11_def sE_def
  testState_def guarded_def unguarded_def testGuard_def Event_dummy_def key_def
  testMachine_def

lemmas defect_defs = defectGraph_def plain_def machineAt_def eventOf_def

lemmas eval_simps =
  resolveBubbling.simps enterEntryStates.simps getTransition_find matches_def
  numTransitions_def takeTransition_def changeState_def goToErrorState_def

text \<open>
  The run of the nested test: the model returns what \<open>main\<close> of the test
  expects, a state change or a loop for every event but the last, which reaches the
  final state \<open>s6\<close>.
\<close>

lemma nested_test_run:
  "map_option fst (handleEvents nestedTest (Some (testMachine 1))
      (map key ''de*jgbdekh*fbafbdi'')) =
   Some [stateM_stateChanged, stateM_stateChanged, stateM_stateChanged,
     stateM_stateLoopSelf, stateM_stateChanged, stateM_stateChanged,
     stateM_stateChanged, stateM_stateChanged, stateM_stateChanged,
     stateM_stateChanged, stateM_stateChanged, stateM_stateChanged,
     stateM_stateChanged, stateM_stateChanged, stateM_stateChanged,
     stateM_stateChanged, stateM_stateChanged, stateM_finalStateReached]"
  by code_simp

section \<open>Event dispatch: bubbling (C1)\<close>

text \<open>
  C1, as the code has it. Let the current state of the machine be present.
  If the current state has zero transitions, \<open>stateM_handleEvent\<close> returns the
  no-state-change code without looking at any ancestor, calls nothing and leaves the
  machine as it is. If no state of the chain of ancestors (the current state first)
  has a matching transition, the call is a no-op in the same way. If the current
  state has at least one transition and bubbling finds the transition \<open>t\<close> (at the
  current state or, when no transition of a state matches, at its parent, and so
  on), then the call does exactly what taking \<open>t\<close> does.
\<close>

theorem handleEvent_bubbling:
  assumes "currentState m = Some cur"
  shows "(numTransitions (g cur) = 0 \<longrightarrow>
            stateM_handleEvent g (Some m) (Some ev) = Some (stateM_noStateChange, Some m, []))
       \<and> (resolveBubbling g m ev cur = Some None \<longrightarrow>
            stateM_handleEvent g (Some m) (Some ev) = Some (stateM_noStateChange, Some m, []))
       \<and> (0 < numTransitions (g cur) \<longrightarrow>
            (\<forall>t. resolveBubbling g m ev cur = Some (Some t) \<longrightarrow>
               stateM_handleEvent g (Some m) (Some ev) =
                 (case takeTransition g m ev cur t of
                    None \<Rightarrow> None
                  | Some (rc, m', calls) \<Rightarrow> Some (rc, Some m', calls))))"
  using handleEvent_final [OF assms] handleEvent_no_match [OF assms]
    handleEvent_match [OF assms]
  by blast

theorem handleEvent_bubbling_witness:
  "stateM_handleEvent nestedTest (Some (testMachine 3)) (Some (key CHR ''f'')) =
     Some (stateM_stateChanged,
       Some \<lparr>currentState = Some 2, previousState = Some 3, errorState = Some 0\<rparr>,
       [ExitCall 2 3 (key CHR ''f''), ActionCall 3 3 (key CHR ''f'') 2,
        EntryCall 1 2 (key CHR ''f'')])
   \<and> stateM_handleEvent nestedTest (Some (testMachine 1)) (Some (key CHR ''x'')) =
       Some (stateM_noStateChange, Some (testMachine 1), [])
   \<and> stateM_handleEvent nestedTest (Some (testMachine 6)) (Some (key CHR ''x'')) =
       Some (stateM_noStateChange, Some (testMachine 6), [])"
proof -
  have c: "currentState (testMachine a) = Some a" for a
    by (simp add: testMachine_def)
  have n3: "0 < numTransitions (nestedTest 3)"
    by (simp add: numTransitions_def test_defs)
  have r3: "resolveBubbling nestedTest (testMachine 3) (key CHR ''f'') 3 =
      Some (Some (guarded CHR ''f'' 2))"
    by (simp add: eval_simps test_defs)
  have t3: "takeTransition nestedTest (testMachine 3) (key CHR ''f'') 3 (guarded CHR ''f'' 2) =
      Some (stateM_stateChanged,
        \<lparr>currentState = Some 2, previousState = Some 3, errorState = Some 0\<rparr>,
        [ExitCall 2 3 (key CHR ''f''), ActionCall 3 3 (key CHR ''f'') 2,
         EntryCall 1 2 (key CHR ''f'')])"
    by (simp add: eval_simps test_defs)
  have r1: "resolveBubbling nestedTest (testMachine 1) (key CHR ''x'') 1 = Some None"
    by (simp add: eval_simps test_defs)
  have n6: "numTransitions (nestedTest 6) = 0"
    by (simp add: numTransitions_def test_defs)
  have a: "stateM_handleEvent nestedTest (Some (testMachine 3)) (Some (key CHR ''f'')) =
      (case takeTransition nestedTest (testMachine 3) (key CHR ''f'') 3 (guarded CHR ''f'' 2) of
         None \<Rightarrow> None
       | Some (rc, m', calls) \<Rightarrow> Some (rc, Some m', calls))"
    using handleEvent_bubbling [OF c, of nestedTest 3 "key CHR ''f''"] n3 r3 by blast
  have b: "stateM_handleEvent nestedTest (Some (testMachine 1)) (Some (key CHR ''x'')) =
      Some (stateM_noStateChange, Some (testMachine 1), [])"
    using handleEvent_bubbling [OF c, of nestedTest 1 "key CHR ''x''"] r1 by blast
  have d: "stateM_handleEvent nestedTest (Some (testMachine 6)) (Some (key CHR ''x'')) =
      Some (stateM_noStateChange, Some (testMachine 6), [])"
    using handleEvent_bubbling [OF c, of nestedTest 6 "key CHR ''x''"] n6 by blast
  show ?thesis
    using a b d by (simp add: t3)
qed

text \<open>
  C1 as it is stated fails for a final state that has a parent: in the graph with
  the configuration defect, the state at address 2 has no transitions and is a child
  of the group at address 3, whose transition for event type 4 matches. Bubbling from
  address 2 finds that transition, and taking it would change the state to address 1;
  \<open>stateM_handleEvent\<close> returns the no-state-change code and leaves the machine
  unchanged.
\<close>

theorem final_state_with_parent_counterexample:
  "currentState (machineAt (Some 2) (Some 0)) = Some 2
   \<and> resolveBubbling defectGraph (machineAt (Some 2) (Some 0)) (eventOf 4) 2 =
       Some (Some (plain 4 23 (Some 1)))
   \<and> takeTransition defectGraph (machineAt (Some 2) (Some 0)) (eventOf 4) 2 (plain 4 23 (Some 1)) =
       Some (stateM_stateChanged,
         \<lparr>currentState = Some 1, previousState = Some 2, errorState = Some 0\<rparr>,
         [ExitCall 14 2 (eventOf 4), ActionCall 23 2 (eventOf 4) 1, EntryCall 11 1 (eventOf 4)])
   \<and> stateM_handleEvent defectGraph (Some (machineAt (Some 2) (Some 0))) (Some (eventOf 4)) =
       Some (stateM_noStateChange, Some (machineAt (Some 2) (Some 0)), [])"
  by (simp add: stateM_handleEvent_def eval_simps defect_defs)

section \<open>Transition resolution (C2)\<close>

text \<open>
  C2. \<open>getTransition\<close> scans the transitions of the state in array order and
  returns the first one whose event type equals the type of the event and whose guard
  is absent or returns true for the condition of the transition and the event; it
  returns nothing exactly when no transition matches. A transition whose guard
  returns false is never selected. What \<open>stateM_handleEvent\<close> does is decided by
  the selected transition alone: whenever it returns, either the current state was
  absent (the machine goes to the error state), or nothing at all happened, or a
  transition \<open>t\<close> was selected by \<open>getTransition\<close> at the current state or at one
  of its ancestors (so \<open>t\<close> matches the event and its guard, if any, returned true),
  and the return value, the new machine and all callback calls are those of taking
  \<open>t\<close>. Every transition action called is the action of that transition, called
  with the data of the current state and the event. So a transition whose guard
  returns false never fires and none of its callbacks is called.
\<close>

theorem getTransition_first_match:
  "getTransition m st ev = List.find (matches ev) (transitions st)
   \<and> (\<forall>t. getTransition m st ev = Some t \<longrightarrow>
         (\<exists>i<numTransitions st. t = transitions st ! i \<and> matches ev t \<and>
            (\<forall>j<i. \<not> matches ev (transitions st ! j))))
   \<and> ((getTransition m st ev = None) = (\<forall>t\<in>set (transitions st). \<not> matches ev t))
   \<and> (\<forall>t gf. guard t = Some gf \<longrightarrow> \<not> gf (condition t) ev \<longrightarrow>
         getTransition m st ev \<noteq> Some t)
   \<and> (\<forall>rc m' calls f d e d'.
         stateM_handleEvent g (Some m) (Some ev) = Some (rc, m', calls) \<longrightarrow>
         ActionCall f d e d' \<in> set calls \<longrightarrow>
         (\<exists>a t. getTransition m (g a) ev = Some t \<and> action t = Some f \<and> matches ev t))
   \<and> (\<forall>rc m' calls.
         stateM_handleEvent g (Some m) (Some ev) = Some (rc, m', calls) \<longrightarrow>
         (currentState m = None \<and> rc = stateM_errorStateReached \<and>
            (\<exists>m2. goToErrorState g m ev = (m2, calls) \<and> m' = Some m2))
         \<or> (rc = stateM_noStateChange \<and> m' = Some m \<and> calls = [])
         \<or> (\<exists>cur a t m2. currentState m = Some cur \<and> (cur, a) \<in> (parentLink g)\<^sup>* \<and>
               getTransition m (g a) ev = Some t \<and> matches ev t \<and>
               resolveBubbling g m ev cur = Some (Some t) \<and>
               takeTransition g m ev cur t = Some (rc, m2, calls) \<and> m' = Some m2))
   \<and> (\<forall>rc m' calls f d e d'.
         stateM_handleEvent g (Some m) (Some ev) = Some (rc, m', calls) \<longrightarrow>
         ActionCall f d e d' \<in> set calls \<longrightarrow>
         (\<exists>cur a t m2. currentState m = Some cur \<and> (cur, a) \<in> (parentLink g)\<^sup>* \<and>
               getTransition m (g a) ev = Some t \<and> matches ev t \<and>
               resolveBubbling g m ev cur = Some (Some t) \<and>
               takeTransition g m ev cur t = Some (rc, m2, calls) \<and> m' = Some m2 \<and>
               action t = Some f \<and> d = data (g cur) \<and> e = ev))"
proof -
  have f: "getTransition m' st' ev = List.find (matches ev) (transitions st')" for m' st'
    by (rule getTransition_find)
  have sel: "matches ev t" if "getTransition m' st' ev = Some t" for m' st' t
    using that by (auto simp: f find_Some_iff)
  have first: "\<exists>i<numTransitions st. t = transitions st ! i \<and> matches ev t \<and>
      (\<forall>j<i. \<not> matches ev (transitions st ! j))" if "getTransition m st ev = Some t" for t
    using that by (auto simp: f find_Some_iff numTransitions_def)
  have none: "(getTransition m st ev = None) = (\<forall>t\<in>set (transitions st). \<not> matches ev t)"
    by (auto simp: f find_None_iff)
  have guarded: "getTransition m st ev \<noteq> Some t"
    if "guard t = Some gf" and "\<not> gf (condition t) ev" for t gf
    using that sel [of m st t] by (auto simp: matches_def)
  have acts: "\<exists>a t. getTransition m (g a) ev = Some t \<and> action t = Some f \<and> matches ev t"
    if "stateM_handleEvent g (Some m) (Some ev) = Some (rc, m', calls)"
      and "ActionCall f d e d' \<in> set calls" for rc m' calls f d e d'
    using handleEvent_actions [OF that] sel by blast
  have fired: "(currentState m = None \<and> rc = stateM_errorStateReached \<and>
        (\<exists>m2. goToErrorState g m ev = (m2, calls) \<and> m' = Some m2))
      \<or> (rc = stateM_noStateChange \<and> m' = Some m \<and> calls = [])
      \<or> (\<exists>cur a t m2. currentState m = Some cur \<and> (cur, a) \<in> (parentLink g)\<^sup>* \<and>
            getTransition m (g a) ev = Some t \<and> matches ev t \<and>
            resolveBubbling g m ev cur = Some (Some t) \<and>
            takeTransition g m ev cur t = Some (rc, m2, calls) \<and> m' = Some m2)"
    if "stateM_handleEvent g (Some m) (Some ev) = Some (rc, m', calls)" for rc m' calls
    using handleEvent_taken [OF that] sel by blast
  have own: "\<exists>cur a t m2. currentState m = Some cur \<and> (cur, a) \<in> (parentLink g)\<^sup>* \<and>
        getTransition m (g a) ev = Some t \<and> matches ev t \<and>
        resolveBubbling g m ev cur = Some (Some t) \<and>
        takeTransition g m ev cur t = Some (rc, m2, calls) \<and> m' = Some m2 \<and>
        action t = Some f \<and> d = data (g cur) \<and> e = ev"
    if run: "stateM_handleEvent g (Some m) (Some ev) = Some (rc, m', calls)"
      and call: "ActionCall f d e d' \<in> set calls" for rc m' calls f d e d'
  proof -
    from fired [OF run] consider
      (err) m2 where "goToErrorState g m ev = (m2, calls)"
      | (noop) "calls = []"
      | (take) cur a t m2 where "currentState m = Some cur" "(cur, a) \<in> (parentLink g)\<^sup>*"
          "getTransition m (g a) ev = Some t" "matches ev t"
          "resolveBubbling g m ev cur = Some (Some t)"
          "takeTransition g m ev cur t = Some (rc, m2, calls)" "m' = Some m2"
      by blast
    then show ?thesis
    proof cases
      case err
      from goToErrorState_calls [OF err call] show ?thesis by simp
    next
      case noop
      with call show ?thesis by simp
    next
      case take
      from takeTransition_action_args [OF take(6) call] take show ?thesis by blast
    qed
  qed
  show ?thesis
    using f first none guarded acts fired own by blast
qed

theorem getTransition_first_match_witness:
  "getTransition (testMachine 4) s4 (key CHR ''j'') = Some (guarded CHR ''j'' 9)
   \<and> getTransition (testMachine 4) s4 (key CHR ''j'') \<noteq> Some (guarded CHR ''h'' 5)
   \<and> (\<exists>a t. getTransition (testMachine 4) (nestedTest a) (key CHR ''j'') = Some t \<and>
         action t = Some 3 \<and> matches (key CHR ''j'') t)
   \<and> (\<exists>a t m2. (4, a) \<in> (parentLink nestedTest)\<^sup>* \<and>
         getTransition (testMachine 4) (nestedTest a) (key CHR ''j'') = Some t \<and>
         matches (key CHR ''j'') t \<and>
         resolveBubbling nestedTest (testMachine 4) (key CHR ''j'') 4 = Some (Some t) \<and>
         takeTransition nestedTest (testMachine 4) (key CHR ''j'') 4 t =
           Some (stateM_stateLoopSelf, m2, [ActionCall 3 4 (key CHR ''j'') 4]))"
proof -
  note inst = getTransition_first_match
    [of "testMachine 4" s4 "key CHR ''j''" nestedTest]
  have sel: "getTransition (testMachine 4) s4 (key CHR ''j'') = Some (guarded CHR ''j'' 9)"
    using inst by (simp add: matches_def test_defs)
  have g: "guard (guarded CHR ''h'' 5) = Some testGuard"
    and ng: "\<not> testGuard (condition (guarded CHR ''h'' 5)) (key CHR ''j'')"
    by (simp_all add: test_defs)
  have rej: "getTransition (testMachine 4) s4 (key CHR ''j'') \<noteq> Some (guarded CHR ''h'' 5)"
    using inst g ng by blast
  have run: "stateM_handleEvent nestedTest (Some (testMachine 4)) (Some (key CHR ''j'')) =
      Some (stateM_stateLoopSelf,
        Some \<lparr>currentState = Some 4, previousState = Some 4, errorState = Some 0\<rparr>,
        [ActionCall 3 4 (key CHR ''j'') 4])"
    by (simp add: stateM_handleEvent_def handleEventLoop.simps eval_simps test_defs)
  have "ActionCall 3 4 (key CHR ''j'') 4 \<in> set [ActionCall 3 4 (key CHR ''j'') 4]"
    by simp
  with inst run have act: "\<exists>a t. getTransition (testMachine 4) (nestedTest a) (key CHR ''j'') = Some t \<and>
      action t = Some 3 \<and> matches (key CHR ''j'') t"
    by blast
  have c: "currentState (testMachine 4) = Some 4"
    by (simp add: testMachine_def)
  have d: "stateM_stateLoopSelf \<noteq> stateM_noStateChange"
    by simp
  from inst run have "(currentState (testMachine 4) = None \<and>
        stateM_stateLoopSelf = stateM_errorStateReached \<and>
        (\<exists>m2. goToErrorState nestedTest (testMachine 4) (key CHR ''j'') =
           (m2, [ActionCall 3 4 (key CHR ''j'') 4]) \<and>
           Some \<lparr>currentState = Some 4, previousState = Some 4, errorState = Some 0\<rparr> = Some m2))
      \<or> (stateM_stateLoopSelf = stateM_noStateChange \<and>
          Some \<lparr>currentState = Some 4, previousState = Some 4, errorState = Some 0\<rparr> =
            Some (testMachine 4) \<and>
          [ActionCall 3 4 (key CHR ''j'') 4] = [])
      \<or> (\<exists>cur a t m2. currentState (testMachine 4) = Some cur \<and>
            (cur, a) \<in> (parentLink nestedTest)\<^sup>* \<and>
            getTransition (testMachine 4) (nestedTest a) (key CHR ''j'') = Some t \<and>
            matches (key CHR ''j'') t \<and>
            resolveBubbling nestedTest (testMachine 4) (key CHR ''j'') cur = Some (Some t) \<and>
            takeTransition nestedTest (testMachine 4) (key CHR ''j'') cur t =
              Some (stateM_stateLoopSelf, m2, [ActionCall 3 4 (key CHR ''j'') 4]) \<and>
            Some \<lparr>currentState = Some 4, previousState = Some 4, errorState = Some 0\<rparr> = Some m2)"
    by blast
  with c d have fired: "\<exists>a t m2. (4, a) \<in> (parentLink nestedTest)\<^sup>* \<and>
      getTransition (testMachine 4) (nestedTest a) (key CHR ''j'') = Some t \<and>
      matches (key CHR ''j'') t \<and>
      resolveBubbling nestedTest (testMachine 4) (key CHR ''j'') 4 = Some (Some t) \<and>
      takeTransition nestedTest (testMachine 4) (key CHR ''j'') 4 t =
        Some (stateM_stateLoopSelf, m2, [ActionCall 3 4 (key CHR ''j'') 4])"
    by auto
  from sel rej act fired show ?thesis by blast
qed

section \<open>Self-transitions (C3)\<close>

text \<open>
  C3. When the landing state of the matched transition is the current state of the
  machine, \<open>stateM_handleEvent\<close> returns the state-looped-to-itself code; the only
  callback it calls is the action of the transition (if it has one), so neither the
  exit action nor the entry action of the state runs; the previous state becomes the
  current state.
\<close>

theorem self_transition:
  assumes "currentState m = Some cur" and "0 < numTransitions (g cur)"
    and "resolveBubbling g m ev cur = Some (Some t)"
    and "nextState t = Some n" and "enterEntryStates g n = Some cur"
  shows "stateM_handleEvent g (Some m) (Some ev) =
     Some (stateM_stateLoopSelf, Some (m\<lparr>previousState := Some cur\<rparr>),
       (case action t of
          None \<Rightarrow> []
        | Some f \<Rightarrow> [ActionCall f (data (g cur)) ev (data (g cur))]))"
  using assms(1) by (simp add: handleEvent_land [OF assms] changeState_def)

theorem self_transition_witness:
  "stateM_handleEvent nestedTest (Some (testMachine 4)) (Some (key CHR ''j'')) =
     Some (stateM_stateLoopSelf,
       Some \<lparr>currentState = Some 4, previousState = Some 4, errorState = Some 0\<rparr>,
       [ActionCall 3 4 (key CHR ''j'') 4])"
proof -
  have c: "currentState (testMachine 4) = Some 4"
    by (simp add: testMachine_def)
  have n: "0 < numTransitions (nestedTest 4)"
    by (simp add: numTransitions_def test_defs)
  have r: "resolveBubbling nestedTest (testMachine 4) (key CHR ''j'') 4 =
      Some (Some (guarded CHR ''j'' 9))"
    by (simp add: eval_simps test_defs)
  have x: "nextState (guarded CHR ''j'' 9) = Some 9"
    by (simp add: guarded_def)
  have l: "enterEntryStates nestedTest 9 = Some 4"
    by (simp add: eval_simps test_defs)
  have a: "action (guarded CHR ''j'' 9) = Some 3"
    by (simp add: guarded_def)
  have d: "data (nestedTest 4) = 4"
    by (simp add: test_defs)
  have m: "(testMachine 4)\<lparr>previousState := Some 4\<rparr> =
      \<lparr>currentState = Some 4, previousState = Some 4, errorState = Some 0\<rparr>"
    by (simp add: testMachine_def)
  show ?thesis
    using self_transition [OF c n r x l] by (simp add: a d m)
qed

section \<open>Entry states (C4)\<close>

text \<open>
  C4. When the entry-state links lead from the next state \<open>n\<close> of the matched
  transition, in any number of steps, to a state \<open>l\<close> that declares no entry
  state, the loop that enters the entry states ends in \<open>l\<close>, \<open>l\<close> becomes the
  current state, and the only entry action called is that of \<open>l\<close> (none at all
  when \<open>l\<close> is the state that was current, or when \<open>l\<close> has no entry action):
  no entry action of a state passed on the way is called.
\<close>

theorem entry_state_chain:
  assumes "currentState m = Some cur" and "0 < numTransitions (g cur)"
    and "resolveBubbling g m ev cur = Some (Some t)"
    and "nextState t = Some n"
    and "(n, l) \<in> (entryLink g)\<^sup>*" and "entryState (g l) = None"
  shows "enterEntryStates g n = Some l
     \<and> (\<exists>rc calls.
          stateM_handleEvent g (Some m) (Some ev) =
            Some (rc, Some (m\<lparr>previousState := Some cur, currentState := Some l\<rparr>), calls)
          \<and> filter isEntryCall calls =
              (if l = cur then []
               else (case entryAction (g l) of
                       None \<Rightarrow> []
                     | Some f \<Rightarrow> [EntryCall f (data (g l)) ev])))"
proof -
  have land: "enterEntryStates g n = Some l"
    using assms(5,6) by (rule enterEntryStates_complete)
  obtain rc m' calls where cs: "changeState g m ev cur t l = (rc, m', calls)"
    by (cases "changeState g m ev cur t l")
  have run: "stateM_handleEvent g (Some m) (Some ev) = Some (rc, Some m', calls)"
    by (simp add: handleEvent_land [OF assms(1-4) land] cs)
  have m': "m' = m\<lparr>previousState := Some cur, currentState := Some l\<rparr>"
    using cs assms(1) by (auto simp: changeState_def Let_def)
  have entries: "filter isEntryCall calls =
      (if l = cur then []
       else (case entryAction (g l) of
               None \<Rightarrow> []
             | Some f \<Rightarrow> [EntryCall f (data (g l)) ev]))"
    using cs assms(1) by (auto simp: changeState_def Let_def split: option.splits)
  show ?thesis
    using land run m' entries by blast
qed

theorem entry_state_chain_witness:
  "\<exists>rc calls.
     stateM_handleEvent nestedTest (Some (testMachine 5)) (Some (key CHR ''*'')) =
       Some (rc, Some \<lparr>currentState = Some 4, previousState = Some 5, errorState = Some 0\<rparr>,
         calls)
     \<and> filter isEntryCall calls = [EntryCall 1 4 (key CHR ''*'')]"
proof -
  have c: "currentState (testMachine 5) = Some 5"
    by (simp add: testMachine_def)
  have n: "0 < numTransitions (nestedTest 5)"
    by (simp add: numTransitions_def test_defs)
  have r: "resolveBubbling nestedTest (testMachine 5) (key CHR ''*'') 5 =
      Some (Some (unguarded 10))"
    by (simp add: eval_simps test_defs)
  have x: "nextState (unguarded 10) = Some 10"
    by (simp add: unguarded_def)
  have "(10, 9) \<in> entryLink nestedTest" and "(9, 4) \<in> entryLink nestedTest"
    by (simp_all add: entryLink_def test_defs)
  then have p: "(10, 4) \<in> (entryLink nestedTest)\<^sup>*"
    by (blast intro: rtrancl_trans r_into_rtrancl)
  have e: "entryState (nestedTest 4) = None"
    by (simp add: test_defs)
  have a: "entryAction (nestedTest 4) = Some 1"
    by (simp add: test_defs)
  have d: "data (nestedTest 4) = 4"
    by (simp add: test_defs)
  have m: "(testMachine 5)\<lparr>previousState := Some 5, currentState := Some 4\<rparr> =
      \<lparr>currentState = Some 4, previousState = Some 5, errorState = Some 0\<rparr>"
    by (simp add: testMachine_def)
  show ?thesis
    using entry_state_chain [OF c n r x p e] by (simp add: a d m)
qed

section \<open>The error state (C5, C9)\<close>

text \<open>
  C5. When the current state of the machine is absent at the call, or the chosen
  transition declares no next state, the current state becomes the error state (the
  previous state becomes what was current), the entry action of the error state, if
  the error state is present and has one, is called with the event, no other callback
  is called, and the error-state-reached code is returned.
\<close>

theorem error_state_fallback:
  "(currentState m = None \<longrightarrow>
      stateM_handleEvent g (Some m) (Some ev) =
        Some (stateM_errorStateReached,
          Some (m\<lparr>previousState := None, currentState := errorState m\<rparr>),
          (case errorState m of
             None \<Rightarrow> []
           | Some e \<Rightarrow>
               (case entryAction (g e) of
                  None \<Rightarrow> []
                | Some f \<Rightarrow> [EntryCall f (data (g e)) ev]))))
   \<and> (currentState m = Some cur \<longrightarrow> 0 < numTransitions (g cur) \<longrightarrow>
      resolveBubbling g m ev cur = Some (Some t) \<longrightarrow> nextState t = None \<longrightarrow>
      stateM_handleEvent g (Some m) (Some ev) =
        Some (stateM_errorStateReached,
          Some (m\<lparr>previousState := Some cur, currentState := errorState m\<rparr>),
          (case errorState m of
             None \<Rightarrow> []
           | Some e \<Rightarrow>
               (case entryAction (g e) of
                  None \<Rightarrow> []
                | Some f \<Rightarrow> [EntryCall f (data (g e)) ev]))))"
proof -
  have a: "stateM_handleEvent g (Some m) (Some ev) =
      Some (stateM_errorStateReached,
        Some (m\<lparr>previousState := None, currentState := errorState m\<rparr>),
        (case errorState m of
           None \<Rightarrow> []
         | Some e \<Rightarrow>
             (case entryAction (g e) of
                None \<Rightarrow> []
              | Some f \<Rightarrow> [EntryCall f (data (g e)) ev])))"
    if "currentState m = None"
    using that by (simp add: stateM_handleEvent_def goToErrorState_def)
  have b: "stateM_handleEvent g (Some m) (Some ev) =
      Some (stateM_errorStateReached,
        Some (m\<lparr>previousState := Some cur, currentState := errorState m\<rparr>),
        (case errorState m of
           None \<Rightarrow> []
         | Some e \<Rightarrow>
             (case entryAction (g e) of
                None \<Rightarrow> []
              | Some f \<Rightarrow> [EntryCall f (data (g e)) ev])))"
    if "currentState m = Some cur" and "0 < numTransitions (g cur)"
      and "resolveBubbling g m ev cur = Some (Some t)" and "nextState t = None"
    using that
    by (simp add: handleEvent_match [OF that(1-3)] takeTransition_def goToErrorState_def)
  show ?thesis
    using a b by blast
qed

theorem error_state_fallback_witness:
  "stateM_handleEvent defectGraph (Some (machineAt None (Some 0))) (Some (eventOf 7)) =
     Some (stateM_errorStateReached,
       Some \<lparr>currentState = Some 0, previousState = None, errorState = Some 0\<rparr>,
       [EntryCall 10 0 (eventOf 7)])
   \<and> stateM_handleEvent defectGraph (Some (machineAt (Some 1) (Some 0))) (Some (eventOf 1)) =
     Some (stateM_errorStateReached,
       Some \<lparr>currentState = Some 0, previousState = Some 1, errorState = Some 0\<rparr>,
       [EntryCall 10 0 (eventOf 1)])"
proof -
  have c0: "currentState (machineAt None (Some 0)) = None"
    by (simp add: machineAt_def)
  have c1: "currentState (machineAt (Some 1) (Some 0)) = Some 1"
    by (simp add: machineAt_def)
  have n: "0 < numTransitions (defectGraph 1)"
    by (simp add: numTransitions_def defect_defs)
  have r: "resolveBubbling defectGraph (machineAt (Some 1) (Some 0)) (eventOf 1) 1 =
      Some (Some (plain 1 20 None))"
    by (simp add: eval_simps defect_defs)
  have x: "nextState (plain 1 20 None) = None"
    by (simp add: plain_def)
  have a: "stateM_handleEvent defectGraph (Some (machineAt None (Some 0))) (Some (eventOf 7)) =
      Some (stateM_errorStateReached,
        Some \<lparr>currentState = Some 0, previousState = None, errorState = Some 0\<rparr>,
        [EntryCall 10 0 (eventOf 7)])"
    using error_state_fallback [of "machineAt None (Some 0)" defectGraph "eventOf 7"] c0
    by (simp add: defect_defs)
  have b: "stateM_handleEvent defectGraph (Some (machineAt (Some 1) (Some 0))) (Some (eventOf 1)) =
      Some (stateM_errorStateReached,
        Some \<lparr>currentState = Some 0, previousState = Some 1, errorState = Some 0\<rparr>,
        [EntryCall 10 0 (eventOf 1)])"
    using error_state_fallback
      [of "machineAt (Some 1) (Some 0)" defectGraph "eventOf 1" 1 "plain 1 20 None"] c1 n r x
    by (simp add: defect_defs)
  show ?thesis
    using a b by simp
qed

text \<open>
  C9, as the code has it. When the landing state of the matched transition is the
  error state of the machine and differs from the current state,
  \<open>stateM_handleEvent\<close> calls the exit action of the state that is left, the action
  of the transition and the entry action of the error state, in this order, and
  returns the error-state-reached code.
\<close>

theorem error_state_by_transition:
  assumes "currentState m = Some cur" and "0 < numTransitions (g cur)"
    and "resolveBubbling g m ev cur = Some (Some t)"
    and "nextState t = Some n" and "enterEntryStates g n = Some l"
    and "errorState m = Some l" and "l \<noteq> cur"
  shows "stateM_handleEvent g (Some m) (Some ev) =
     Some (stateM_errorStateReached,
       Some (m\<lparr>previousState := Some cur, currentState := Some l\<rparr>),
       (case exitAction (g cur) of
          None \<Rightarrow> []
        | Some f \<Rightarrow> [ExitCall f (data (g cur)) ev])
       @ (case action t of
            None \<Rightarrow> []
          | Some f \<Rightarrow> [ActionCall f (data (g cur)) ev (data (g l))])
       @ (case entryAction (g l) of
            None \<Rightarrow> []
          | Some f \<Rightarrow> [EntryCall f (data (g l)) ev]))"
  using assms(1,6,7) by (simp add: handleEvent_land [OF assms(1-5)] changeState_def)

theorem error_state_by_transition_witness:
  "stateM_handleEvent defectGraph (Some (machineAt (Some 1) (Some 0))) (Some (eventOf 2)) =
     Some (stateM_errorStateReached,
       Some \<lparr>currentState = Some 0, previousState = Some 1, errorState = Some 0\<rparr>,
       [ExitCall 12 1 (eventOf 2), ActionCall 21 1 (eventOf 2) 0, EntryCall 10 0 (eventOf 2)])"
proof -
  have c: "currentState (machineAt (Some 1) (Some 0)) = Some 1"
    by (simp add: machineAt_def)
  have n: "0 < numTransitions (defectGraph 1)"
    by (simp add: numTransitions_def defect_defs)
  have r: "resolveBubbling defectGraph (machineAt (Some 1) (Some 0)) (eventOf 2) 1 =
      Some (Some (plain 2 21 (Some 0)))"
    by (simp add: eval_simps defect_defs)
  have x: "nextState (plain 2 21 (Some 0)) = Some 0"
    by (simp add: plain_def)
  have l: "enterEntryStates defectGraph 0 = Some 0"
    by (simp add: eval_simps defect_defs)
  have e: "errorState (machineAt (Some 1) (Some 0)) = Some 0"
    by (simp add: machineAt_def)
  have d: "(0::nat) \<noteq> 1"
    by simp
  show ?thesis
    using error_state_by_transition [OF c n r x l e d] by (simp add: defect_defs)
qed

text \<open>
  C9 as it is stated fails when the error state is itself the current state and
  the matched transition returns to it: at address 4 of the graph with the
  configuration defect, with the error state of the machine set to address 4, the
  result is the state-looped-to-itself code, and neither the exit action nor the
  entry action of the state is called.
\<close>

theorem error_state_self_loop_counterexample:
  "currentState (machineAt (Some 4) (Some 4)) = Some 4
   \<and> errorState (machineAt (Some 4) (Some 4)) = Some 4
   \<and> resolveBubbling defectGraph (machineAt (Some 4) (Some 4)) (eventOf 1) 4 =
       Some (Some (plain 1 24 (Some 4)))
   \<and> nextState (plain 1 24 (Some 4)) = Some 4
   \<and> enterEntryStates defectGraph 4 = Some 4
   \<and> exitAction (defectGraph 4) = Some 16
   \<and> entryAction (defectGraph 4) = Some 15
   \<and> stateM_handleEvent defectGraph (Some (machineAt (Some 4) (Some 4))) (Some (eventOf 1)) =
       Some (stateM_stateLoopSelf,
         Some \<lparr>currentState = Some 4, previousState = Some 4, errorState = Some 4\<rparr>,
         [ActionCall 24 4 (eventOf 1) 4])
   \<and> stateM_stateLoopSelf \<noteq> stateM_errorStateReached"
  by (simp add: stateM_handleEvent_def handleEventLoop.simps eval_simps defect_defs)

section \<open>Final states (C6)\<close>

text \<open>
  C6, as the code has it. When the matched transition lands on a state that
  differs from the current state and has zero transitions, \<open>stateM_handleEvent\<close>
  returns the final-state-reached code, unless the landing state is the error state
  of the machine, in which case it returns the error-state-reached code. In both
  cases the machine has halted: whatever events are handed to it afterwards, every
  call returns the no-state-change code, calls nothing and leaves the machine
  unchanged.
\<close>

theorem final_state_halts:
  assumes "currentState m = Some cur" and "0 < numTransitions (g cur)"
    and "resolveBubbling g m ev cur = Some (Some t)"
    and "nextState t = Some n" and "enterEntryStates g n = Some l"
    and "l \<noteq> cur" and "numTransitions (g l) = 0"
  shows "\<exists>calls.
     stateM_handleEvent g (Some m) (Some ev) =
       Some (if errorState m = Some l then stateM_errorStateReached
             else stateM_finalStateReached,
         Some (m\<lparr>previousState := Some cur, currentState := Some l\<rparr>), calls)
     \<and> (\<forall>evs.
          handleEvents g (Some (m\<lparr>previousState := Some cur, currentState := Some l\<rparr>)) evs =
            Some (replicate (length evs) stateM_noStateChange,
              Some (m\<lparr>previousState := Some cur, currentState := Some l\<rparr>), []))"
proof -
  obtain rc m' calls where cs: "changeState g m ev cur t l = (rc, m', calls)"
    by (cases "changeState g m ev cur t l")
  have run: "stateM_handleEvent g (Some m) (Some ev) = Some (rc, Some m', calls)"
    by (simp add: handleEvent_land [OF assms(1-5)] cs)
  have m': "m' = m\<lparr>previousState := Some cur, currentState := Some l\<rparr>"
    using cs assms(1) by (auto simp: changeState_def Let_def)
  have rc: "rc = (if errorState m = Some l then stateM_errorStateReached
      else stateM_finalStateReached)"
    using cs assms(1,6,7) by (auto simp: changeState_def Let_def)
  have cur': "currentState m' = Some l"
    by (simp add: m')
  have halted: "handleEvents g (Some m') evs =
      Some (replicate (length evs) stateM_noStateChange, Some m', [])" for evs
    using cur' assms(7) by (rule handleEvents_halted)
  show ?thesis
    using run rc halted unfolding m' by blast
qed

theorem final_state_halts_witness:
  "\<exists>calls.
     stateM_handleEvent nestedTest (Some (testMachine 3)) (Some (key CHR ''i'')) =
       Some (stateM_finalStateReached,
         Some \<lparr>currentState = Some 6, previousState = Some 3, errorState = Some 0\<rparr>, calls)
     \<and> handleEvents nestedTest
         (Some \<lparr>currentState = Some 6, previousState = Some 3, errorState = Some 0\<rparr>)
         [key CHR ''a'', key CHR ''f''] =
       Some ([stateM_noStateChange, stateM_noStateChange],
         Some \<lparr>currentState = Some 6, previousState = Some 3, errorState = Some 0\<rparr>, [])"
proof -
  have c: "currentState (testMachine 3) = Some 3"
    by (simp add: testMachine_def)
  have n: "0 < numTransitions (nestedTest 3)"
    by (simp add: numTransitions_def test_defs)
  have r: "resolveBubbling nestedTest (testMachine 3) (key CHR ''i'') 3 =
      Some (Some (guarded CHR ''i'' 6))"
    by (simp add: eval_simps test_defs)
  have x: "nextState (guarded CHR ''i'' 6) = Some 6"
    by (simp add: guarded_def)
  have l: "enterEntryStates nestedTest 6 = Some 6"
    by (simp add: eval_simps test_defs)
  have d: "(6::nat) \<noteq> 3"
    by simp
  have f: "numTransitions (nestedTest 6) = 0"
    by (simp add: numTransitions_def test_defs)
  have e: "errorState (testMachine 3) \<noteq> Some 6"
    by (simp add: testMachine_def)
  have m: "(testMachine 3)\<lparr>previousState := Some 3, currentState := Some 6\<rparr> =
      \<lparr>currentState = Some 6, previousState = Some 3, errorState = Some 0\<rparr>"
    by (simp add: testMachine_def)
  obtain calls where
    run: "stateM_handleEvent nestedTest (Some (testMachine 3)) (Some (key CHR ''i'')) =
      Some (stateM_finalStateReached,
        Some \<lparr>currentState = Some 6, previousState = Some 3, errorState = Some 0\<rparr>, calls)"
    and halt: "\<And>evs. handleEvents nestedTest
        (Some \<lparr>currentState = Some 6, previousState = Some 3, errorState = Some 0\<rparr>) evs =
      Some (replicate (length evs) stateM_noStateChange,
        Some \<lparr>currentState = Some 6, previousState = Some 3, errorState = Some 0\<rparr>, [])"
    using final_state_halts [OF c n r x l d f] e unfolding m by auto
  have two: "replicate (length [key CHR ''a'', key CHR ''f'']) stateM_noStateChange =
      [stateM_noStateChange, stateM_noStateChange]"
    by simp
  show ?thesis
    using run halt [of "[key CHR ''a'', key CHR ''f'']"] unfolding two by blast
qed

text \<open>
  C6 as it is stated fails when the final state reached is the error state: in the
  graph with the configuration defect the transition of \<open>idle\<close> for event type 2
  lands on the error state at address 0, which differs from \<open>idle\<close> and has zero
  transitions; the result is the error-state-reached code.
\<close>

theorem final_error_state_counterexample:
  "currentState (machineAt (Some 1) (Some 0)) = Some 1
   \<and> resolveBubbling defectGraph (machineAt (Some 1) (Some 0)) (eventOf 2) 1 =
       Some (Some (plain 2 21 (Some 0)))
   \<and> nextState (plain 2 21 (Some 0)) = Some 0
   \<and> enterEntryStates defectGraph 0 = Some 0
   \<and> numTransitions (defectGraph 0) = 0
   \<and> stateM_handleEvent defectGraph (Some (machineAt (Some 1) (Some 0))) (Some (eventOf 2)) =
       Some (stateM_errorStateReached,
         Some \<lparr>currentState = Some 0, previousState = Some 1, errorState = Some 0\<rparr>,
         [ExitCall 12 1 (eventOf 2), ActionCall 21 1 (eventOf 2) 0, EntryCall 10 0 (eventOf 2)])
   \<and> stateM_errorStateReached \<noteq> stateM_finalStateReached"
  by (simp add: stateM_handleEvent_def handleEventLoop.simps eval_simps defect_defs)

section \<open>Initialisation and the accessor \<open>stateM_stopped\<close>\<close>

text \<open>
  C8. \<open>stateM_init\<close> on a present machine sets \<open>currentState\<close> to the initial
  state and \<open>errorState\<close> to the error state, resets \<open>previousState\<close> to null and
  calls no entry, exit or transition action, whatever the machine held before (a final
  state included) and however often it is called; a second call with the same
  arguments gives exactly what the first call gave.
\<close>

theorem stateM_init_resets:
  "stateM_init (Some m) i e =
     (Some \<lparr>currentState = i, previousState = None, errorState = e\<rparr>, [])
   \<and> stateM_init (fst (stateM_init (Some m) i e)) i e = stateM_init (Some m) i e
   \<and> ((\<lambda>f. fst (stateM_init f i e)) ^^ Suc n) (Some m) =
       Some \<lparr>currentState = i, previousState = None, errorState = e\<rparr>
   \<and> snd (stateM_init (((\<lambda>f. fst (stateM_init f i e)) ^^ n) (Some m)) i e) = []"
proof -
  let ?r = "\<lparr>currentState = i, previousState = None, errorState = e\<rparr>"
  have one: "stateM_init (Some m') i e = (Some ?r, [])" for m'
    by (simp add: stateM_init_def)
  have iter: "\<exists>m'. ((\<lambda>f. fst (stateM_init f i e)) ^^ k) (Some m) = Some m'" for k
    by (induction k) (auto simp: one)
  have again: "((\<lambda>f. fst (stateM_init f i e)) ^^ Suc n) (Some m) = Some ?r"
    using iter [of n] by (auto simp: one)
  have quiet: "snd (stateM_init (((\<lambda>f. fst (stateM_init f i e)) ^^ n) (Some m)) i e) = []"
    using iter [of n] by (auto simp: one)
  show ?thesis
    using one again quiet by simp
qed

text \<open>
  On every machine for which it has a defined result, \<open>stateM_stopped\<close> returns
  true exactly when the machine reference is absent or the current state of the
  machine has zero transitions, and it returns false exactly when the machine is
  present and its current state has at least one transition; for every state \<open>s\<close>,
  the result on a machine whose current state is \<open>s\<close> is whether \<open>s\<close> has zero
  transitions.
\<close>

lemma stateM_stopped_iff:
  "(stateM_stopped g fsm = Inr True) =
     (fsm = None \<or>
      (\<exists>m s. fsm = Some m \<and> currentState m = Some s \<and> numTransitions (g s) = 0))
   \<and> (stateM_stopped g fsm = Inr False) =
     (\<exists>m s. fsm = Some m \<and> currentState m = Some s \<and> 0 < numTransitions (g s))
   \<and> stateM_stopped g None = Inr True
   \<and> stateM_stopped g (Some (m\<lparr>currentState := Some s\<rparr>)) = Inr (numTransitions (g s) = 0)"
  by (auto simp: stateM_stopped_def split: option.splits)

text \<open>
  C7. The missing case: a present machine whose current state is absent, which is
  what \<open>stateM_init\<close> leaves when it is handed a null initial state.
  \<open>stateM_handleEvent\<close> checks for it and leads such a machine to the error state;
  \<open>stateM_stopped\<close> does not check and reads \<open>currentState->numTransitions\<close>
  through the null pointer, so the call returns neither true nor false.
\<close>

theorem stateM_stopped_null_current:
  "stateM_init (Some (testMachine 1)) None (Some 0) = (Some (machineAt None (Some 0)), [])
   \<and> stateM_stopped nestedTest (Some (machineAt None (Some 0))) = Inl NullDereference
   \<and> stateM_stopped nestedTest (Some (machineAt None (Some 0))) \<noteq> Inr False
   \<and> stateM_handleEvent nestedTest (Some (machineAt None (Some 0))) (Some (key CHR ''d'')) =
       Some (stateM_errorStateReached,
         Some \<lparr>currentState = Some 0, previousState = None, errorState = Some 0\<rparr>,
         [EntryCall 1 0 (key CHR ''d'')])"
  by (simp add: stateM_init_def stateM_stopped_def stateM_handleEvent_def goToErrorState_def
      machineAt_def test_defs)

text \<open>
  C10. \<open>stateM_stopped\<close> has a defined result exactly when the machine reference is
  absent or the current state of the machine is present: on a present machine whose
  current state is absent the read of \<open>currentState->numTransitions\<close> dereferences a
  null pointer, as it does right after \<open>stateM_init\<close> with an absent initial state.
\<close>

theorem stateM_stopped_defined_iff:
  "(\<exists>b. stateM_stopped g fsm = Inr b) =
     (fsm = None \<or> (\<exists>m s. fsm = Some m \<and> currentState m = Some s))
   \<and> stateM_stopped g (Some (m\<lparr>currentState := None\<rparr>)) = Inl NullDereference
   \<and> stateM_stopped g (fst (stateM_init (Some m) None e)) = Inl NullDereference"
  by (auto simp: stateM_stopped_def stateM_init_def split: option.splits)

end
